theory Spec2Isabelle
  imports Complex_Main "HOL-Library.AList"
begin

section \<open>Floating-point values as the dashboard sees them\<close>

text \<open>
  Every number in \<^verbatim>\<open>financial_dashboard.py\<close> is a Python/NumPy float64. The model keeps
  the four classes of values that decide the behaviour of the code (a finite number, the two
  infinities and not-a-number) and computes on finite numbers in the reals: rounding, overflow
  to infinity and the sign of zero are not modelled. Arithmetic on the special values follows
  IEEE 754, which is what NumPy and pandas do elementwise, without raising.
\<close>

datatype fl = Fin real | PInf | NInf | NaN

fun is_fin :: "fl \<Rightarrow> bool" where
  "is_fin (Fin _) = True"
| "is_fin _ = False"

fun val :: "fl \<Rightarrow> real" where
  "val (Fin r) = r"
| "val _ = 0"

fun fneg :: "fl \<Rightarrow> fl" where
  "fneg (Fin a) = Fin (- a)"
| "fneg PInf = NInf"
| "fneg NInf = PInf"
| "fneg NaN = NaN"

fun fadd :: "fl \<Rightarrow> fl \<Rightarrow> fl" where
  "fadd (Fin a) (Fin b) = Fin (a + b)"
| "fadd NaN _ = NaN"
| "fadd _ NaN = NaN"
| "fadd PInf NInf = NaN"
| "fadd NInf PInf = NaN"
| "fadd PInf _ = PInf"
| "fadd _ PInf = PInf"
| "fadd NInf _ = NInf"
| "fadd _ NInf = NInf"

definition fsub :: "fl \<Rightarrow> fl \<Rightarrow> fl" where
  "fsub a b = fadd a (fneg b)"

text \<open>The sign of an infinite product or quotient: \<open>inf_of True\<close> is \<open>+inf\<close>.\<close>

definition inf_of :: "bool \<Rightarrow> fl" where
  "inf_of pos = (if pos then PInf else NInf)"

fun fmul :: "fl \<Rightarrow> fl \<Rightarrow> fl" where
  "fmul (Fin a) (Fin b) = Fin (a * b)"
| "fmul NaN _ = NaN"
| "fmul _ NaN = NaN"
| "fmul PInf (Fin b) = (if b = 0 then NaN else inf_of (0 < b))"
| "fmul NInf (Fin b) = (if b = 0 then NaN else inf_of (b < 0))"
| "fmul (Fin a) PInf = (if a = 0 then NaN else inf_of (0 < a))"
| "fmul (Fin a) NInf = (if a = 0 then NaN else inf_of (a < 0))"
| "fmul PInf PInf = PInf"
| "fmul NInf NInf = PInf"
| "fmul PInf NInf = NInf"
| "fmul NInf PInf = NInf"

text \<open>
  Division never raises: a nonzero finite number over zero is an infinity, zero over zero and
  infinity over infinity are NaN, a finite number over an infinity is zero.
\<close>

fun fdiv :: "fl \<Rightarrow> fl \<Rightarrow> fl" where
  "fdiv (Fin a) (Fin b) =
     (if b \<noteq> 0 then Fin (a / b) else if a = 0 then NaN else inf_of (0 < a))"
| "fdiv NaN _ = NaN"
| "fdiv _ NaN = NaN"
| "fdiv (Fin a) PInf = Fin 0"
| "fdiv (Fin a) NInf = Fin 0"
| "fdiv PInf (Fin b) = inf_of (0 \<le> b)"
| "fdiv NInf (Fin b) = inf_of (b < 0)"
| "fdiv PInf PInf = NaN"
| "fdiv PInf NInf = NaN"
| "fdiv NInf PInf = NaN"
| "fdiv NInf NInf = NaN"

text \<open>Comparisons with NaN are false.\<close>

fun flt :: "fl \<Rightarrow> fl \<Rightarrow> bool" where
  "flt (Fin a) (Fin b) = (a < b)"
| "flt NaN _ = False"
| "flt _ NaN = False"
| "flt NInf NInf = False"
| "flt NInf _ = True"
| "flt PInf _ = False"
| "flt (Fin a) PInf = True"
| "flt (Fin a) NInf = False"

definition fgt :: "fl \<Rightarrow> fl \<Rightarrow> bool" where
  "fgt a b = flt b a"

section \<open>Series operations used by \<^verbatim>\<open>fetch_data\<close>\<close>

text \<open>
  A pandas Series is the list of its values in index order. \<^verbatim>\<open>rolling(n)\<close> has
  \<^verbatim>\<open>min_periods = n\<close>: the value at position \<open>i\<close> is NaN until \<open>n\<close> rows exist, and
  NaN when the window holds fewer than \<open>n\<close> observations, that is when one of its values is
  NaN or infinite (\<open>prep_values\<close>: pandas turns infinities into NaN before a rolling or
  exponentially weighted aggregation).
\<close>

definition prep_values :: "fl list \<Rightarrow> fl list" where
  "prep_values xs = map (\<lambda>x. if is_fin x then x else NaN) xs"

definition window :: "nat \<Rightarrow> 'a list \<Rightarrow> nat \<Rightarrow> 'a list" where
  "window n xs i = take n (drop (Suc i - n) xs)"

definition mean_of :: "real list \<Rightarrow> real" where
  "mean_of vs = sum_list vs / real (length vs)"

definition rolling_mean :: "nat \<Rightarrow> fl list \<Rightarrow> fl list" where
  "rolling_mean n xs =
     map (\<lambda>i. if Suc i < n then NaN
              else (let w = window n xs i
                    in if list_all is_fin w then Fin (mean_of (map val w)) else NaN))
         [0..<length xs]"

text \<open>
  \<^verbatim>\<open>rolling(n).std()\<close> has \<^verbatim>\<open>ddof = 1\<close>: the sum of the squared deviations from the
  window's mean over the number of observations less one, then the square root.
\<close>

definition ssqdm :: "real list \<Rightarrow> real" where
  "ssqdm vs = sum_list (map (\<lambda>v. (v - mean_of vs)\<^sup>2) vs)"

definition sample_std :: "real list \<Rightarrow> fl" where
  "sample_std vs =
     (if 1 < length vs then Fin (sqrt (ssqdm vs / (real (length vs) - 1))) else NaN)"

definition rolling_std :: "nat \<Rightarrow> fl list \<Rightarrow> fl list" where
  "rolling_std n xs =
     map (\<lambda>i. if Suc i < n then NaN
              else (let w = window n xs i
                    in if list_all is_fin w then sample_std (map val w) else NaN))
         [0..<length xs]"

text \<open>
  \<^verbatim>\<open>ewm(span=s, adjust=False).mean()\<close>: pandas walks the series with a running average
  \<open>weighted\<close> and the weight \<open>old_wt\<close> of the history. With \<^verbatim>\<open>adjust=False\<close> the new
  observation has weight \<open>\<alpha> = 2 / (s + 1)\<close>, the history decays by \<open>1 - \<alpha>\<close> at every row
  (also at a NaN row, \<^verbatim>\<open>ignore_na=False\<close>), and \<open>old_wt\<close> is reset to 1 after every
  observation. A NaN row repeats the running average.
\<close>

fun ewm_loop :: "real \<Rightarrow> fl \<Rightarrow> real \<Rightarrow> fl list \<Rightarrow> fl list" where
  "ewm_loop \<alpha> weighted old_wt [] = []"
| "ewm_loop \<alpha> weighted old_wt (cur # xs) =
     (if weighted \<noteq> NaN then
        (let old_wt' = old_wt * (1 - \<alpha>) in
         if cur \<noteq> NaN then
           (let weighted' =
              (if weighted \<noteq> cur
               then fdiv (fadd (fmul (Fin old_wt') weighted) (fmul (Fin \<alpha>) cur))
                         (Fin (old_wt' + \<alpha>))
               else weighted)
            in weighted' # ewm_loop \<alpha> weighted' 1 xs)
         else weighted # ewm_loop \<alpha> weighted old_wt' xs)
      else cur # ewm_loop \<alpha> cur old_wt xs)"

definition ewm_mean :: "nat \<Rightarrow> fl list \<Rightarrow> fl list" where
  "ewm_mean sp xs =
     (case prep_values xs of [] \<Rightarrow> []
      | x # rest \<Rightarrow> x # ewm_loop (2 / (real sp + 1)) x 1 rest)"

text \<open>\<^verbatim>\<open>diff()\<close>: NaN at the first row, then the difference to the row before.\<close>

definition diff :: "fl list \<Rightarrow> fl list" where
  "diff xs = (case xs of [] \<Rightarrow> [] | x # rest \<Rightarrow> NaN # map2 (\<lambda>prev cur. fsub cur prev) xs rest)"

text \<open>
  \<^verbatim>\<open>s.where(cond, 0)\<close> keeps the value where the condition holds and puts 0 elsewhere; a
  comparison with NaN is false, so the NaN of the first row becomes 0.
\<close>

definition where_cond :: "(fl \<Rightarrow> bool) \<Rightarrow> fl list \<Rightarrow> fl list" where
  "where_cond c xs = map (\<lambda>x. if c x then x else Fin 0) xs"

section \<open>The indicator columns of \<^verbatim>\<open>fetch_data\<close>\<close>

record indicators =
  Close :: "fl list"
  SMA_50 :: "fl list"
  SMA_200 :: "fl list"
  EMA_20 :: "fl list"
  Upper_BB :: "fl list"
  Lower_BB :: "fl list"
  RSI :: "fl list"

definition gain14 :: "fl list \<Rightarrow> fl list" where
  "gain14 close = rolling_mean 14 (where_cond (\<lambda>d. fgt d (Fin 0)) (diff close))"

definition loss14 :: "fl list \<Rightarrow> fl list" where
  "loss14 close = rolling_mean 14 (map fneg (where_cond (\<lambda>d. flt d (Fin 0)) (diff close)))"

definition RS14 :: "fl list \<Rightarrow> fl list" where
  "RS14 close = map2 fdiv (gain14 close) (loss14 close)"

definition RSI14 :: "fl list \<Rightarrow> fl list" where
  "RSI14 close = map (\<lambda>rs. fsub (Fin 100) (fdiv (Fin 100) (fadd (Fin 1) rs))) (RS14 close)"

text \<open>
  \<^verbatim>\<open>fetch_data\<close> downloads the bars of one ticker and adds the indicator columns; the
  download is outside the model, so the function takes the \<^verbatim>\<open>Close\<close> column it got.
\<close>

definition fetch_data :: "fl list \<Rightarrow> indicators" where
  "fetch_data close =
     (let ema = ewm_mean 20 close;
          rolling_std20 = rolling_std 20 close
      in \<lparr> Close = close,
           SMA_50 = rolling_mean 50 close,
           SMA_200 = rolling_mean 200 close,
           EMA_20 = ema,
           Upper_BB = map2 fadd ema (map (fmul (Fin 2)) rolling_std20),
           Lower_BB = map2 fsub ema (map (fmul (Fin 2)) rolling_std20),
           RSI = RSI14 close \<rparr>)"

text \<open>A finite value that is not negative (every gain and every loss is one).\<close>

definition nonneg :: "fl \<Rightarrow> bool" where
  "nonneg x = (is_fin x \<and> 0 \<le> val x)"

section \<open>Parsing the allocation text\<close>

text \<open>
  The allocation text is a Python \<^verbatim>\<open>str\<close>; the model covers ASCII text, one \<open>char\<close> per
  character. \<^verbatim>\<open>s.split(sep)\<close> cuts at every separator and always returns at least one
  piece; \<^verbatim>\<open>s.strip()\<close> removes the whitespace at both ends; \<^verbatim>\<open>s.upper()\<close> maps
  \<^verbatim>\<open>a\<close>..\<^verbatim>\<open>z\<close> to \<^verbatim>\<open>A\<close>..\<^verbatim>\<open>Z\<close>.
\<close>

fun split_on :: "char \<Rightarrow> string \<Rightarrow> string list" where
  "split_on sep [] = [[]]"
| "split_on sep (c # cs) =
     (if c = sep then [] # split_on sep cs
      else (case split_on sep cs of [] \<Rightarrow> [[c]] | w # ws \<Rightarrow> (c # w) # ws))"

definition is_space :: "char \<Rightarrow> bool" where
  "is_space c = (let n = (of_char c :: nat) in (9 \<le> n \<and> n \<le> 13) \<or> (28 \<le> n \<and> n \<le> 32))"

definition strip :: "string \<Rightarrow> string" where
  "strip s = rev (dropWhile is_space (rev (dropWhile is_space s)))"

definition upper_char :: "char \<Rightarrow> char" where
  "upper_char c =
     (let n = (of_char c :: nat) in if 97 \<le> n \<and> n \<le> 122 then char_of (n - 32) else c)"

definition upper :: "string \<Rightarrow> string" where
  "upper s = map upper_char s"

text \<open>
  \<^verbatim>\<open>float(text)\<close> on stripped text, after the grammar of the Python reference: an optional
  sign, then \<^verbatim>\<open>inf\<close>, \<^verbatim>\<open>infinity\<close> or \<^verbatim>\<open>nan\<close> in any case, or a decimal number with
  an optional exponent; digits may be grouped by single underscores. Any other text raises
  \<^verbatim>\<open>ValueError\<close>, which is \<open>None\<close> here. The value is the exact decimal value.
\<close>

definition is_digit :: "char \<Rightarrow> bool" where
  "is_digit c = (let n = (of_char c :: nat) in 48 \<le> n \<and> n \<le> 57)"

definition digit_val :: "char \<Rightarrow> nat" where
  "digit_val c = of_char c - 48"

text \<open>What follows the first digit of a digit part: digits, each after at most one \<^verbatim>\<open>_\<close>.\<close>

fun digits_rest :: "string \<Rightarrow> nat list \<times> string" where
  "digits_rest [] = ([], [])"
| "digits_rest [c] = (if is_digit c then ([digit_val c], []) else ([], [c]))"
| "digits_rest (c # d # cs) =
     (if is_digit c then (case digits_rest (d # cs) of (ds, r) \<Rightarrow> (digit_val c # ds, r))
      else if c = CHR ''_'' \<and> is_digit d
           then (case digits_rest cs of (ds, r) \<Rightarrow> (digit_val d # ds, r))
      else ([], c # d # cs))"

definition digitpart :: "string \<Rightarrow> (nat list \<times> string) option" where
  "digitpart s =
     (case s of [] \<Rightarrow> None
      | c # cs \<Rightarrow> if is_digit c
                 then (case digits_rest cs of (ds, r) \<Rightarrow> Some (digit_val c # ds, r))
                 else None)"

text \<open>A number: the digits before the point, the digits after it, and the rest of the text.\<close>

definition number :: "string \<Rightarrow> (nat list \<times> nat list \<times> string) option" where
  "number s =
     (case digitpart s of
        Some (ip, r) \<Rightarrow>
          (case r of [] \<Rightarrow> Some (ip, [], [])
           | c # r' \<Rightarrow>
               if c = CHR ''.''
               then (case digitpart r' of None \<Rightarrow> Some (ip, [], r')
                     | Some (fp, r'') \<Rightarrow> Some (ip, fp, r''))
               else Some (ip, [], r))
      | None \<Rightarrow>
          (case s of [] \<Rightarrow> None
           | c # r' \<Rightarrow>
               if c = CHR ''.''
               then (case digitpart r' of None \<Rightarrow> None | Some (fp, r'') \<Rightarrow> Some ([], fp, r''))
               else None))"

definition sign_of :: "string \<Rightarrow> bool \<times> string" where
  "sign_of s =
     (case s of [] \<Rightarrow> (False, [])
      | c # r \<Rightarrow> if c = CHR ''-'' then (True, r) else if c = CHR ''+'' then (False, r)
                else (False, s))"

definition nat_of_digits :: "nat list \<Rightarrow> nat" where
  "nat_of_digits ds = foldl (\<lambda>a d. 10 * a + d) 0 ds"

text \<open>The exponent is what is left after the number: nothing, or \<^verbatim>\<open>e\<close>, a sign, digits.\<close>

definition exponent :: "string \<Rightarrow> int option" where
  "exponent s =
     (case s of [] \<Rightarrow> Some 0
      | c # r \<Rightarrow>
          if c = CHR ''e'' \<or> c = CHR ''E''
          then (case sign_of r of (neg, r') \<Rightarrow>
                 (case digitpart r' of
                    Some (ds, []) \<Rightarrow>
                      Some (if neg then - int (nat_of_digits ds) else int (nat_of_digits ds))
                  | _ \<Rightarrow> None))
          else None)"

definition scale10 :: "real \<Rightarrow> int \<Rightarrow> real" where
  "scale10 m e = (if 0 \<le> e then m * 10 ^ nat e else m / 10 ^ nat (- e))"

definition py_float :: "string \<Rightarrow> fl option" where
  "py_float s =
     (case sign_of s of (neg, r) \<Rightarrow>
        (let signed = (\<lambda>x. if neg then fneg x else x) in
         if upper r = ''INF'' \<or> upper r = ''INFINITY'' then Some (signed PInf)
         else if upper r = ''NAN'' then Some NaN
         else (case number r of None \<Rightarrow> None
               | Some (ip, fp, r') \<Rightarrow>
                   (case exponent r' of None \<Rightarrow> None
                    | Some e \<Rightarrow>
                        Some (signed (Fin (scale10 (real (nat_of_digits (ip @ fp)))
                                                  (e - int (length fp)))))))))"

text \<open>
  One entry of the allocation text, the body of the \<^verbatim>\<open>try\<close>: the entry must split at
  \<^verbatim>\<open>:\<close> into exactly two pieces (the tuple assignment raises otherwise) and the second
  must be a float; the right-hand side is evaluated before the dictionary is touched. \<open>None\<close>
  is the exception that \<^verbatim>\<open>except: pass\<close> swallows.
\<close>

definition parse_item :: "string \<Rightarrow> (string \<times> fl) option" where
  "parse_item item =
     (case split_on CHR '':'' item of
        [t, p] \<Rightarrow>
          (case py_float (strip p) of None \<Rightarrow> None
           | Some x \<Rightarrow> Some (upper (strip t), fdiv x (Fin 100)))
      | _ \<Rightarrow> None)"

text \<open>
  \<^verbatim>\<open>alloc_dict\<close> is a Python dict: keys in the order of their first insertion, a later
  assignment to a key replaces the value in place (\<open>AList.update\<close>). The loop returns the
  dictionary and nothing else.
\<close>

fun alloc_loop :: "(string \<times> fl) list \<Rightarrow> string list \<Rightarrow> (string \<times> fl) list" where
  "alloc_loop d [] = d"
| "alloc_loop d (item # items) =
     alloc_loop (case parse_item item of None \<Rightarrow> d | Some (k, v) \<Rightarrow> AList.update k v d) items"

definition alloc_dict :: "string \<Rightarrow> (string \<times> fl) list" where
  "alloc_dict portfolio_allocations =
     alloc_loop [] (split_on CHR '','' portfolio_allocations)"

section \<open>The price table of \<^verbatim>\<open>portfolio_performance\<close>\<close>

text \<open>
  A downloaded \<^verbatim>\<open>Close\<close> column is a Series: its dates with their values, in date order,
  one row per date. A DataFrame is its row index and its columns in order, every column as
  long as the index. The download itself is outside the model: the market data is a table of
  the \<^verbatim>\<open>Close\<close> Series that the supplier has for the date range, by ticker, and
  \<^verbatim>\<open>yf.download(t, start, end)['Close']\<close> looks the ticker up; a ticker that the supplier
  does not know has an empty Series.
\<close>

type_synonym date = nat

type_synonym series = "(date \<times> fl) list"

type_synonym market = "(string \<times> series) list"

definition download :: "market \<Rightarrow> string \<Rightarrow> series" where
  "download mkt t = (case map_of mkt t of None \<Rightarrow> [] | Some s \<Rightarrow> s)"

record frame =
  index :: "date list"
  columns :: "(string \<times> fl list) list"

definition empty_frame :: frame where
  "empty_frame = \<lparr> index = [], columns = [] \<rparr>"

text \<open>
  \<^verbatim>\<open>prices[t] = s\<close>. While the frame has no rows, a non-empty Series gives the frame its
  index (columns that are already there become NaN on it). In every case the Series is then
  conformed to the index of the frame: a date of the index that the Series lacks gets NaN,
  and a date of the Series that the index lacks is left out.
\<close>

definition reindex :: "series \<Rightarrow> date list \<Rightarrow> fl list" where
  "reindex s idx = map (\<lambda>d. case map_of s d of None \<Rightarrow> NaN | Some v \<Rightarrow> v) idx"

definition ensure_valid_index :: "frame \<Rightarrow> series \<Rightarrow> frame" where
  "ensure_valid_index df s =
     (if index df = [] \<and> s \<noteq> []
      then \<lparr> index = map fst s,
             columns = map (\<lambda>(name, c). (name, replicate (length s) NaN)) (columns df) \<rparr>
      else df)"

definition set_column :: "frame \<Rightarrow> string \<Rightarrow> series \<Rightarrow> frame" where
  "set_column df t s =
     (let df' = ensure_valid_index df s
      in df'\<lparr> columns := AList.update t (reindex s (index df')) (columns df') \<rparr>)"

text \<open>The loop \<^verbatim>\<open>for t in alloc_dict.keys(): prices[t] = ...\<close> from the empty frame.\<close>

fun prices_loop :: "market \<Rightarrow> frame \<Rightarrow> string list \<Rightarrow> frame" where
  "prices_loop mkt df [] = df"
| "prices_loop mkt df (t # ts) = prices_loop mkt (set_column df t (download mkt t)) ts"

definition build_prices :: "market \<Rightarrow> string list \<Rightarrow> frame" where
  "build_prices mkt keys = prices_loop mkt empty_frame keys"

text \<open>
  \<^verbatim>\<open>fillna(method='ffill')\<close> walks each column downwards and puts the last value seen in
  place of a NaN; before the first value there is nothing to put.
\<close>

fun ffill_from :: "fl \<Rightarrow> fl list \<Rightarrow> fl list" where
  "ffill_from seen [] = []"
| "ffill_from seen (x # xs) =
     (if x = NaN then seen # ffill_from seen xs else x # ffill_from x xs)"

definition ffill :: "fl list \<Rightarrow> fl list" where
  "ffill xs = ffill_from NaN xs"

definition map_columns :: "(fl list \<Rightarrow> fl list) \<Rightarrow> frame \<Rightarrow> frame" where
  "map_columns f df = df\<lparr> columns := map (\<lambda>(name, c). (name, f c)) (columns df) \<rparr>"

definition filled_prices :: "market \<Rightarrow> string list \<Rightarrow> frame" where
  "filled_prices mkt keys = map_columns ffill (build_prices mkt keys)"

text \<open>
  \<^verbatim>\<open>pct_change()\<close> pads the column forward (its default in the pandas versions that
  accept \<^verbatim>\<open>fillna(method=...)\<close>) and divides every row by the row before, less one; the
  first row has no row before and is NaN.
\<close>

definition pct_change :: "fl list \<Rightarrow> fl list" where
  "pct_change xs =
     (case ffill xs of [] \<Rightarrow> []
      | x # rest \<Rightarrow> NaN # map2 (\<lambda>prev cur. fsub (fdiv cur prev) (Fin 1)) (x # rest) rest)"

text \<open>\<^verbatim>\<open>dropna()\<close> keeps the rows that hold no NaN.\<close>

definition row_at :: "frame \<Rightarrow> nat \<Rightarrow> fl list" where
  "row_at df i = map (\<lambda>(name, c). c ! i) (columns df)"

definition kept_rows :: "frame \<Rightarrow> nat list" where
  "kept_rows df = filter (\<lambda>i. NaN \<notin> set (row_at df i)) [0..<length (index df)]"

definition dropna :: "frame \<Rightarrow> frame" where
  "dropna df =
     \<lparr> index = map (\<lambda>i. index df ! i) (kept_rows df),
       columns = map (\<lambda>(name, c). (name, map (\<lambda>i. c ! i) (kept_rows df))) (columns df) \<rparr>"

definition pct_changes :: "market \<Rightarrow> string list \<Rightarrow> frame" where
  "pct_changes mkt keys = map_columns pct_change (filled_prices mkt keys)"

definition returns_table :: "market \<Rightarrow> string list \<Rightarrow> frame" where
  "returns_table mkt keys = dropna (pct_changes mkt keys)"

section \<open>Weighted returns and metrics\<close>

text \<open>
  \<^verbatim>\<open>returns.mul(ws, axis=1)\<close> multiplies the \<open>j\<close>-th column by the \<open>j\<close>-th weight;
  \<^verbatim>\<open>sum(axis=1)\<close> adds up every row, leaving NaN entries out (\<^verbatim>\<open>skipna\<close> is on by
  default, as it is for \<^verbatim>\<open>mean\<close> and \<^verbatim>\<open>std\<close>).
\<close>

definition mul_columns :: "frame \<Rightarrow> fl list \<Rightarrow> frame" where
  "mul_columns df ws =
     df\<lparr> columns := map2 (\<lambda>(name, c) w. (name, map (\<lambda>x. fmul x w) c)) (columns df) ws \<rparr>"

definition dropna_values :: "fl list \<Rightarrow> fl list" where
  "dropna_values xs = filter (\<lambda>x. x \<noteq> NaN) xs"

definition sum_skipna :: "fl list \<Rightarrow> fl" where
  "sum_skipna xs = foldl fadd (Fin 0) (dropna_values xs)"

definition sum_rows :: "frame \<Rightarrow> fl list" where
  "sum_rows df = map (\<lambda>i. sum_skipna (row_at df i)) [0..<length (index df)]"

definition portfolio_return :: "frame \<Rightarrow> fl list \<Rightarrow> fl list" where
  "portfolio_return returns ws = sum_rows (mul_columns returns ws)"

fun cumprod_from :: "fl \<Rightarrow> fl list \<Rightarrow> fl list" where
  "cumprod_from acc [] = []"
| "cumprod_from acc (x # xs) =
     (if x = NaN then NaN # cumprod_from acc xs
      else fmul acc x # cumprod_from (fmul acc x) xs)"

definition cumprod :: "fl list \<Rightarrow> fl list" where
  "cumprod xs = cumprod_from (Fin 1) xs"

definition series_mean :: "fl list \<Rightarrow> fl" where
  "series_mean xs =
     (let vs = dropna_values xs
      in if vs = [] then NaN else fdiv (foldl fadd (Fin 0) vs) (Fin (real (length vs))))"

definition series_std :: "fl list \<Rightarrow> fl" where
  "series_std xs =
     (let vs = dropna_values xs
      in if list_all is_fin vs then sample_std (map val vs) else NaN)"

record metrics =
  Average_Daily_Return :: fl
  Volatility :: fl
  Sharpe_Ratio :: fl

definition metrics_of :: "fl list \<Rightarrow> metrics" where
  "metrics_of rets =
     \<lparr> Average_Daily_Return = series_mean rets,
       Volatility = series_std rets,
       Sharpe_Ratio =
         (if series_std rets \<noteq> Fin 0
          then fdiv (series_mean rets) (series_std rets)
          else Fin 0) \<rparr>"

text \<open>
  \<^verbatim>\<open>portfolio_performance(alloc_dict, start, end)\<close>: the weights are the values of the
  dictionary in key order, as the columns are. The result is the cumulative growth with its
  dates, and the metrics.
\<close>

definition weighted_return_series :: "market \<Rightarrow> (string \<times> fl) list \<Rightarrow> fl list" where
  "weighted_return_series mkt alloc =
     portfolio_return (returns_table mkt (map fst alloc)) (map snd alloc)"

definition portfolio_performance ::
  "market \<Rightarrow> (string \<times> fl) list \<Rightarrow> (date \<times> fl) list \<times> metrics" where
  "portfolio_performance mkt alloc =
     (let returns = returns_table mkt (map fst alloc);
          rets = weighted_return_series mkt alloc;
          cumulative = cumprod (map (fadd (Fin 1)) rets)
      in (zip (index returns) cumulative, metrics_of rets))"

section \<open>Properties of the indicator engine\<close>

subsection \<open>Rolling windows\<close>

lemma length_rolling_mean [simp]: "length (rolling_mean n xs) = length xs"
  by (simp add: rolling_mean_def)

lemma length_rolling_std [simp]: "length (rolling_std n xs) = length xs"
  by (simp add: rolling_std_def)

lemma length_window: "n \<le> Suc i \<Longrightarrow> i < length xs \<Longrightarrow> length (window n xs i) = n"
  by (simp add: window_def)

lemma window_nth:
  "n \<le> Suc i \<Longrightarrow> i < length xs \<Longrightarrow> k < n \<Longrightarrow> window n xs i ! k = xs ! (Suc i - n + k)"
  by (simp add: window_def)

lemma window_all: "list_all P xs \<Longrightarrow> list_all P (window n xs i)"
  unfolding window_def list_all_iff
  by (meson in_set_dropD in_set_takeD)

lemma sum_list_window:
  assumes "n \<le> Suc i" "i < length xs"
  shows "sum_list (map f (window n xs i)) = (\<Sum>k<n. f (xs ! (Suc i - n + k)))"
proof -
  have "sum_list (map f (window n xs i)) = (\<Sum>k = 0..<length (window n xs i). map f (window n xs i) ! k)"
    by (metis length_map sum_list_sum_nth)
  also have "\<dots> = (\<Sum>k = 0..<n. f (window n xs i ! k))"
    using assms by (simp add: length_window)
  also have "\<dots> = (\<Sum>k = 0..<n. f (xs ! (Suc i - n + k)))"
    using assms by (intro sum.cong) (simp_all add: window_nth)
  finally show ?thesis by (simp add: lessThan_atLeast0)
qed

lemma rolling_mean_nth:
  assumes "list_all is_fin xs" "i < length xs"
  shows "rolling_mean n xs ! i =
    (if n \<le> Suc i then Fin ((\<Sum>k<n. val (xs ! (Suc i - n + k))) / real n) else NaN)"
proof (cases "n \<le> Suc i")
  case True
  have "list_all is_fin (window n xs i)" using assms(1) by (rule window_all)
  moreover have "mean_of (map val (window n xs i)) = (\<Sum>k<n. val (xs ! (Suc i - n + k))) / real n"
    using True assms(2) by (simp add: mean_of_def sum_list_window length_window)
  ultimately show ?thesis using True assms(2)
    by (simp add: rolling_mean_def Let_def)
next
  case False
  then show ?thesis using assms(2) by (simp add: rolling_mean_def)
qed

text \<open>
  Claim C5. On a series of finite closes, \<open>SMA_50\<close> (resp. \<open>SMA_200\<close>) at row \<open>i\<close> is the
  arithmetic mean of the 50 (resp. 200) closes ending at \<open>i\<close> inclusive once that many rows
  exist, and NaN (not zero) before; so \<open>SMA_200\<close> is defined at \<open>i\<close> iff \<open>199 \<le> i\<close>.
\<close>

theorem sma_trailing_mean:
  assumes "list_all is_fin close" and "i < length close"
  shows "SMA_50 (fetch_data close) ! i =
           (if 49 \<le> i then Fin ((\<Sum>k<50. val (close ! (i - 49 + k))) / 50) else NaN)
       \<and> SMA_200 (fetch_data close) ! i =
           (if 199 \<le> i then Fin ((\<Sum>k<200. val (close ! (i - 199 + k))) / 200) else NaN)
       \<and> (is_fin (SMA_200 (fetch_data close) ! i) \<longleftrightarrow> 199 \<le> i)"
  using assms by (simp add: fetch_data_def Let_def rolling_mean_nth)

theorem sma_trailing_mean_witness:
  "list_all is_fin (replicate 200 (Fin 2)) \<and> 199 < length (replicate 200 (Fin 2))
   \<and> SMA_50 (fetch_data (replicate 200 (Fin 2))) ! 199 = Fin 2
   \<and> SMA_200 (fetch_data (replicate 200 (Fin 2))) ! 199 = Fin 2
   \<and> is_fin (SMA_200 (fetch_data (replicate 200 (Fin 2))) ! 199)"
  using sma_trailing_mean [of "replicate 200 (Fin 2)" 199]
  by (simp add: list_all_length)

subsection \<open>Exponential moving average\<close>

lemma prep_values_fin: "list_all is_fin xs \<Longrightarrow> prep_values xs = xs"
  by (induction xs) (simp_all add: prep_values_def)

lemma length_ewm_loop [simp]: "length (ewm_loop a w ow xs) = length xs"
  by (induction xs arbitrary: w ow) (simp_all add: Let_def)

lemma ewm_loop_step:
  "ewm_loop a (Fin w) 1 (Fin x # xs) =
     Fin (a * x + (1 - a) * w) # ewm_loop a (Fin (a * x + (1 - a) * w)) 1 xs"
proof (cases "w = x")
  case True
  have "a * x + (1 - a) * x = x" by (simp add: algebra_simps)
  with True show ?thesis by (simp add: Let_def)
next
  case False
  then show ?thesis by (simp add: Let_def algebra_simps)
qed

lemma ewm_loop_nth:
  assumes "list_all is_fin xs" "i < length xs"
  shows "ewm_loop a (Fin w) 1 xs ! i =
     Fin (a * val (xs ! i) + (1 - a) * (if i = 0 then w else val (ewm_loop a (Fin w) 1 xs ! (i - 1))))"
  using assms
proof (induction xs arbitrary: w i)
  case Nil
  then show ?case by simp
next
  case (Cons x xs)
  from Cons.prems obtain r where x: "x = Fin r" by (cases x) simp_all
  let ?w' = "a * r + (1 - a) * w"
  have step: "ewm_loop a (Fin w) 1 (Fin r # xs) = Fin ?w' # ewm_loop a (Fin ?w') 1 xs"
    by (rule ewm_loop_step)
  show ?case
  proof (cases i)
    case 0
    then show ?thesis unfolding x step by simp
  next
    case (Suc j)
    with Cons.prems have j: "j < length xs" and fin: "list_all is_fin xs" by simp_all
    show ?thesis
      using Cons.IH [OF fin j, of ?w'] Suc
      unfolding x step by (cases j) simp_all
  qed
qed

lemma ewm_mean_nth:
  assumes "list_all is_fin xs" "i < length xs"
  shows "ewm_mean sp xs ! i =
     (if i = 0 then xs ! 0
      else Fin (2 / (real sp + 1) * val (xs ! i)
                + (1 - 2 / (real sp + 1)) * val (ewm_mean sp xs ! (i - 1))))"
proof (cases xs)
  case Nil
  with assms show ?thesis by simp
next
  case (Cons x rest)
  from assms Cons obtain r where x: "x = Fin r" by (cases x) simp_all
  from assms Cons have fin: "list_all is_fin rest" by simp
  have em: "ewm_mean sp xs = Fin r # ewm_loop (2 / (real sp + 1)) (Fin r) 1 rest"
    using assms(1) by (simp add: ewm_mean_def prep_values_fin Cons x)
  show ?thesis
  proof (cases i)
    case 0
    then show ?thesis unfolding em by (simp add: Cons x)
  next
    case (Suc j)
    with assms Cons have j: "j < length rest" by simp
    show ?thesis
      using ewm_loop_nth [OF fin j, of "2 / (real sp + 1)" r] Suc
      unfolding em by (cases j) (simp_all add: Cons)
  qed
qed

lemma length_ewm_mean [simp]: "length (ewm_mean sp xs) = length xs"
  by (cases xs) (simp_all add: ewm_mean_def prep_values_def)

lemma ewm_mean_fin:
  assumes "list_all is_fin xs" "i < length xs"
  shows "is_fin (ewm_mean sp xs ! i)"
proof (cases i)
  case 0
  with assms show ?thesis by (simp add: ewm_mean_nth list_all_length)
next
  case (Suc j)
  with assms show ?thesis by (simp add: ewm_mean_nth)
qed

text \<open>
  Claim C6. On a non-empty series of finite closes, \<open>EMA_20\<close> at row 0 is the first close,
  every later row is \<open>\<alpha> * close + (1 - \<alpha>) * previous EMA\<close> with \<open>\<alpha> = 2 / 21\<close>, and the
  column is defined at every row.
\<close>

theorem ema20_recurrence:
  assumes "list_all is_fin close" and "close \<noteq> []"
  shows "EMA_20 (fetch_data close) ! 0 = close ! 0
       \<and> (\<forall>i. 0 < i \<and> i < length close \<longrightarrow>
            EMA_20 (fetch_data close) ! i =
              Fin (2 / 21 * val (close ! i)
                   + (1 - 2 / 21) * val (EMA_20 (fetch_data close) ! (i - 1))))
       \<and> length (EMA_20 (fetch_data close)) = length close
       \<and> (\<forall>i < length close. is_fin (EMA_20 (fetch_data close) ! i))"
proof -
  have ema: "EMA_20 (fetch_data close) = ewm_mean 20 close"
    by (simp add: fetch_data_def Let_def)
  from assms(2) have pos: "0 < length close" by simp
  have "ewm_mean 20 close ! 0 = close ! 0"
    using ewm_mean_nth [OF assms(1) pos, of 20] by simp
  moreover have "\<forall>i. 0 < i \<and> i < length close \<longrightarrow>
      ewm_mean 20 close ! i =
        Fin (2 / 21 * val (close ! i) + (1 - 2 / 21) * val (ewm_mean 20 close ! (i - 1)))"
    using ewm_mean_nth [OF assms(1), of _ 20] by simp
  moreover have "\<forall>i < length close. is_fin (ewm_mean 20 close ! i)"
    using ewm_mean_fin [OF assms(1)] by blast
  ultimately show ?thesis unfolding ema by simp
qed


theorem ema20_recurrence_witness:
  "list_all is_fin [Fin 100, Fin 121] \<and> [Fin 100, Fin 121] \<noteq> []
   \<and> EMA_20 (fetch_data [Fin 100, Fin 121]) ! 0 = Fin 100
   \<and> EMA_20 (fetch_data [Fin 100, Fin 121]) ! 1 = Fin 102"
  using ema20_recurrence [of "[Fin 100, Fin 121]"]
  by simp

subsection \<open>Bollinger bands\<close>

lemma rolling_std_nth:
  assumes "list_all is_fin xs" "i < length xs" "1 < n"
  shows "rolling_std n xs ! i =
    (if n \<le> Suc i
     then Fin (sqrt ((\<Sum>k<n. (val (xs ! (Suc i - n + k))
                              - (\<Sum>j<n. val (xs ! (Suc i - n + j))) / real n)\<^sup>2)
                     / (real n - 1)))
     else NaN)"
proof (cases "n \<le> Suc i")
  case True
  let ?w = "window n xs i"
  let ?m = "(\<Sum>j<n. val (xs ! (Suc i - n + j))) / real n"
  have fin: "list_all is_fin ?w" using assms(1) by (rule window_all)
  have len: "length ?w = n" using True assms(2) by (rule length_window)
  have m: "mean_of (map val ?w) = ?m"
    using True assms(2) by (simp add: mean_of_def sum_list_window len)
  have "ssqdm (map val ?w) = sum_list (map (\<lambda>x. (val x - ?m)\<^sup>2) ?w)"
    unfolding ssqdm_def m by (simp add: comp_def)
  also have "\<dots> = (\<Sum>k<n. (val (xs ! (Suc i - n + k)) - ?m)\<^sup>2)"
    using True assms(2) by (rule sum_list_window)
  finally have ss: "ssqdm (map val ?w) = (\<Sum>k<n. (val (xs ! (Suc i - n + k)) - ?m)\<^sup>2)" .
  have "sample_std (map val ?w) = Fin (sqrt ((\<Sum>k<n. (val (xs ! (Suc i - n + k)) - ?m)\<^sup>2) / (real n - 1)))"
    using assms(3) by (simp add: sample_std_def ss len)
  then show ?thesis using True assms(2) fin
    by (simp add: rolling_std_def Let_def)
next
  case False
  then show ?thesis using assms(2) by (simp add: rolling_std_def)
qed

text \<open>
  Claim C7. On a series of finite closes, the upper (lower) band at row \<open>i\<close> is \<open>EMA_20\<close> plus
  (minus) twice the rolling 20-row standard deviation of the close, which is the sample
  standard deviation (denominator 19) of the 20 closes ending at \<open>i\<close>; the deviation and both
  bands are NaN exactly at the rows before the twentieth.
\<close>

theorem bollinger_bands:
  assumes "list_all is_fin close" and "i < length close"
  shows "Upper_BB (fetch_data close) ! i
           = fadd (EMA_20 (fetch_data close) ! i) (fmul (Fin 2) (rolling_std 20 close ! i))
       \<and> Lower_BB (fetch_data close) ! i
           = fsub (EMA_20 (fetch_data close) ! i) (fmul (Fin 2) (rolling_std 20 close ! i))
       \<and> rolling_std 20 close ! i =
           (if 19 \<le> i
            then Fin (sqrt ((\<Sum>k<20. (val (close ! (i - 19 + k))
                                     - (\<Sum>j<20. val (close ! (i - 19 + j))) / 20)\<^sup>2) / 19))
            else NaN)
       \<and> (rolling_std 20 close ! i = NaN \<longleftrightarrow> i < 19)
       \<and> (Upper_BB (fetch_data close) ! i = NaN \<longleftrightarrow> i < 19)
       \<and> (Lower_BB (fetch_data close) ! i = NaN \<longleftrightarrow> i < 19)"
proof -
  let ?ema = "ewm_mean 20 close" and ?std = "rolling_std 20 close"
  have up: "Upper_BB (fetch_data close) ! i = fadd (?ema ! i) (fmul (Fin 2) (?std ! i))"
    using assms(2) by (simp add: fetch_data_def Let_def)
  have lo: "Lower_BB (fetch_data close) ! i = fsub (?ema ! i) (fmul (Fin 2) (?std ! i))"
    using assms(2) by (simp add: fetch_data_def Let_def)
  have ema: "EMA_20 (fetch_data close) = ?ema"
    by (simp add: fetch_data_def Let_def)
  have std: "?std ! i =
           (if 19 \<le> i
            then Fin (sqrt ((\<Sum>k<20. (val (close ! (i - 19 + k))
                                     - (\<Sum>j<20. val (close ! (i - 19 + j))) / 20)\<^sup>2) / 19))
            else NaN)"
    using rolling_std_nth [OF assms, of 20] by simp
  obtain e where e: "?ema ! i = Fin e"
    using ewm_mean_fin [OF assms, of 20] by (cases "?ema ! i") simp_all
  have nan: "?std ! i = NaN \<longleftrightarrow> i < 19"
    unfolding std by auto
  have upn: "fadd (Fin e) (fmul (Fin 2) (?std ! i)) = NaN \<longleftrightarrow> i < 19"
    unfolding std by auto
  have lon: "fsub (Fin e) (fmul (Fin 2) (?std ! i)) = NaN \<longleftrightarrow> i < 19"
    unfolding std by (auto simp: fsub_def)
  show ?thesis
    unfolding up lo ema e using std nan upn lon by blast
qed

theorem bollinger_bands_witness:
  "list_all is_fin (map Fin [16,4,11,9,11,9,10,10,10,10,10,10,10,10,10,10,10,10,10,10])
   \<and> 19 < length (map Fin [16,4,11,9,11,9,10,10,10,10,10,10,10,10,10,10,10,10,10,10::real])
   \<and> rolling_std 20 (map Fin [16,4,11,9,11,9,10,10,10,10,10,10,10,10,10,10,10,10,10,10]) ! 19 = Fin 2
   \<and> Upper_BB (fetch_data (map Fin [16,4,11,9,11,9,10,10,10,10,10,10,10,10,10,10,10,10,10,10])) ! 19
       = fadd (EMA_20 (fetch_data (map Fin [16,4,11,9,11,9,10,10,10,10,10,10,10,10,10,10,10,10,10,10])) ! 19) (Fin 4)
   \<and> Upper_BB (fetch_data (map Fin [16,4,11,9,11,9,10,10,10,10,10,10,10,10,10,10,10,10,10,10])) ! 19 \<noteq> NaN"
proof -
  let ?c = "map Fin [16,4,11,9,11,9,10,10,10,10,10,10,10,10,10,10,10,10,10,10]"
  have fin: "list_all is_fin ?c" by simp
  have len: "19 < length ?c" by simp
  have std: "rolling_std 20 ?c ! 19 = Fin 2"
    by (simp add: rolling_std_def window_def sample_std_def ssqdm_def mean_of_def Let_def power2_eq_square)
  note bb = bollinger_bands [OF fin len]
  from bb have "Upper_BB (fetch_data ?c) ! 19 = fadd (EMA_20 (fetch_data ?c) ! 19) (fmul (Fin 2) (Fin 2))"
    unfolding std by (rule conjunct1)
  then have up: "Upper_BB (fetch_data ?c) ! 19 = fadd (EMA_20 (fetch_data ?c) ! 19) (Fin 4)"
    by simp
  from bb have "Upper_BB (fetch_data ?c) ! 19 = NaN \<longleftrightarrow> (19::nat) < 19"
    by blast
  then have nn: "Upper_BB (fetch_data ?c) ! 19 \<noteq> NaN" by simp
  from fin len std up nn show ?thesis by blast
qed

subsection \<open>Relative strength index\<close>

lemma length_diff [simp]: "length (diff xs) = length xs"
  by (cases xs) (simp_all add: diff_def)

lemma diff_nth:
  assumes "list_all is_fin xs" "i < length xs"
  shows "diff xs ! i = (if i = 0 then NaN else Fin (val (xs ! i) - val (xs ! (i - 1))))"
proof (cases xs)
  case Nil
  with assms show ?thesis by simp
next
  case (Cons x rest)
  show ?thesis
  proof (cases i)
    case 0
    then show ?thesis by (simp add: diff_def Cons)
  next
    case (Suc j)
    with assms Cons have j: "j < length rest" by simp
    from assms(1) have "is_fin (xs ! j)" "is_fin (xs ! Suc j)"
      using assms(2) Suc by (simp_all add: list_all_length)
    then obtain a b where "xs ! j = Fin a" "xs ! Suc j = Fin b"
      by (cases "xs ! j"; cases "xs ! Suc j") simp_all
    then show ?thesis using j Suc Cons
      by (simp add: diff_def fsub_def)
  qed
qed


lemma losses_nonneg:
  assumes "list_all is_fin xs"
  shows "list_all nonneg (map fneg (where_cond (\<lambda>d. flt d (Fin 0)) (diff xs)))"
  unfolding list_all_length where_cond_def
proof (intro allI impI)
  fix i assume "i < length (map fneg (map (\<lambda>x. if flt x (Fin 0) then x else Fin 0) (diff xs)))"
  then have i: "i < length xs" by simp
  show "nonneg (map fneg (map (\<lambda>x. if flt x (Fin 0) then x else Fin 0) (diff xs)) ! i)"
    using i diff_nth [OF assms i] by (simp add: nonneg_def)
qed







section \<open>Properties of the allocation parser\<close>

lemma alloc_loop_append: "alloc_loop d (xs @ ys) = alloc_loop (alloc_loop d xs) ys"
  by (induction xs arbitrary: d) simp_all

lemma alloc_loop_skip: "parse_item item = None \<Longrightarrow> alloc_loop d (item # ys) = alloc_loop d ys"
  by simp

lemma alloc_loop_filter:
  "alloc_loop d (filter (\<lambda>item. parse_item item \<noteq> None) items) = alloc_loop d items"
proof (induction items arbitrary: d)
  case Nil
  then show ?case by simp
next
  case (Cons item items)
  then show ?case by (cases "parse_item item") simp_all
qed

lemma parse_item_None_cases:
  "parse_item item = None \<longleftrightarrow>
     (\<forall>t p. split_on CHR '':'' item = [t, p] \<longrightarrow> py_float (strip p) = None)"
  by (auto simp: parse_item_def split: list.splits option.splits)

lemma parse_item_Some:
  "parse_item item = Some (k, w) \<longleftrightarrow>
     (\<exists>t p x. split_on CHR '':'' item = [t, p] \<and> py_float (strip p) = Some x
        \<and> k = upper (strip t) \<and> w = fdiv x (Fin 100))"
  by (auto simp: parse_item_def split: list.splits option.splits)

lemma alloc_loop_distinct:
  "distinct (map fst d) \<Longrightarrow> distinct (map fst (alloc_loop d items))"
proof (induction items arbitrary: d)
  case Nil
  then show ?case by simp
next
  case (Cons item items)
  show ?case
  proof (cases "parse_item item")
    case None
    with Cons show ?thesis by simp
  next
    case (Some kv)
    obtain k v where kv: "kv = (k, v)" by (cases kv)
    have "distinct (map fst (AList.update k v d))"
      using Cons.prems by (rule distinct_update)
    then show ?thesis using Cons.IH Some kv by simp
  qed
qed

lemma alloc_loop_other_key:
  assumes "\<forall>item \<in> set ys. \<forall>u. parse_item item \<noteq> Some (k, u)"
  shows "map_of (alloc_loop d ys) k = map_of d k"
  using assms
proof (induction ys arbitrary: d)
  case Nil
  then show ?case by simp
next
  case (Cons item ys)
  then have rest: "\<forall>item \<in> set ys. \<forall>u. parse_item item \<noteq> Some (k, u)"
    and this_one: "\<forall>u. parse_item item \<noteq> Some (k, u)" by simp_all
  show ?case
  proof (cases "parse_item item")
    case None
    with Cons.IH [OF rest] show ?thesis by simp
  next
    case (Some kv)
    obtain k' v where kv: "kv = (k', v)" by (cases kv)
    with Some this_one have "k' \<noteq> k" by auto
    then have "map_of (AList.update k' v d) k = map_of d k"
      by (simp add: update_conv')
    with Cons.IH [OF rest, of "AList.update k' v d"] Some kv show ?thesis by simp
  qed
qed

lemma alloc_loop_origin:
  assumes "(k, w) \<in> set (alloc_loop d items)"
  shows "(k, w) \<in> set d \<or> (\<exists>item \<in> set items. parse_item item = Some (k, w))"
  using assms
proof (induction items arbitrary: d)
  case Nil
  then show ?case by simp
next
  case (Cons item items)
  show ?case
  proof (cases "parse_item item")
    case None
    with Cons.IH [of d] Cons.prems show ?thesis by auto
  next
    case (Some kv)
    obtain k' v where kv: "kv = (k', v)" by (cases kv)
    have sub: "set (AList.update k' v d) \<subseteq> insert (k', v) (set d)"
      by (induction d) auto
    from Cons.prems Some kv have "(k, w) \<in> set (alloc_loop (AList.update k' v d) items)"
      by simp
    from Cons.IH [OF this] sub Some kv show ?thesis by auto
  qed
qed

lemma single_entry:
  "distinct (map fst d) \<Longrightarrow> map_of d k = Some w \<Longrightarrow> length (filter (\<lambda>e. fst e = k) d) = 1"
proof (induction d)
  case Nil
  then show ?case by simp
next
  case (Cons e d)
  show ?case
  proof (cases "fst e = k")
    case True
    with Cons.prems have "k \<notin> fst ` set d" by auto
    then have "filter (\<lambda>e. fst e = k) d = []"
      by (auto simp: filter_empty_conv)
    with True show ?thesis by simp
  next
    case False
    with Cons show ?thesis by (cases e) auto
  qed
qed

text \<open>
  Claim C2, as the code has it. A malformed entry (one that does not split at the colon into
  exactly two pieces, or whose percentage is not a float) is skipped and the loop goes on:
  the dictionary is the one built from the well-formed entries alone, and dropping a
  malformed entry from the list changes nothing. The dictionary is all the loop produces.
\<close>

theorem malformed_entries_skipped:
  "alloc_dict s =
     alloc_loop [] (filter (\<lambda>item. parse_item item \<noteq> None) (split_on CHR '','' s))
   \<and> (parse_item item = None \<longrightarrow> alloc_loop d (xs @ item # ys) = alloc_loop d (xs @ ys))
   \<and> (parse_item item = None \<longleftrightarrow>
        (\<forall>t p. split_on CHR '':'' item = [t, p] \<longrightarrow> py_float (strip p) = None))"
proof -
  have "alloc_dict s =
     alloc_loop [] (filter (\<lambda>item. parse_item item \<noteq> None) (split_on CHR '','' s))"
    unfolding alloc_dict_def by (rule alloc_loop_filter [symmetric])
  moreover have "parse_item item = None \<longrightarrow>
      alloc_loop d (xs @ item # ys) = alloc_loop d (xs @ ys)"
    by (simp add: alloc_loop_append)
  ultimately show ?thesis using parse_item_None_cases [of item] by blast
qed

theorem malformed_entries_skipped_witness:
  "parse_item ''AAPL40'' = None
   \<and> alloc_loop [] ([''MSFT:40''] @ ''AAPL40'' # [''GOOGL:x'', ''TSLA:20''])
       = alloc_loop [] ([''MSFT:40''] @ [''GOOGL:x'', ''TSLA:20''])
   \<and> alloc_dict ''MSFT:40,AAPL40,GOOGL:x,TSLA:20'' = [(''MSFT'', Fin (2 / 5)), (''TSLA'', Fin (1 / 5))]"
proof -
  have n: "parse_item ''AAPL40'' = None" by code_simp
  have f: "filter (\<lambda>item. parse_item item \<noteq> None) (split_on CHR '','' ''MSFT:40,AAPL40,GOOGL:x,TSLA:20'')
      = [''MSFT:40'', ''TSLA:20'']" by code_simp
  have a: "alloc_loop [] [''MSFT:40'', ''TSLA:20''] = [(''MSFT'', Fin (2 / 5)), (''TSLA'', Fin (1 / 5))]"
    by code_simp
  note m = malformed_entries_skipped
    [of "''MSFT:40,AAPL40,GOOGL:x,TSLA:20''" "''AAPL40''" "[]" "[''MSFT:40'']" "[''GOOGL:x'', ''TSLA:20'']"]
  from m n have "alloc_loop [] ([''MSFT:40''] @ ''AAPL40'' # [''GOOGL:x'', ''TSLA:20''])
       = alloc_loop [] ([''MSFT:40''] @ [''GOOGL:x'', ''TSLA:20''])" by blast
  moreover from m have "alloc_dict ''MSFT:40,AAPL40,GOOGL:x,TSLA:20'' = [(''MSFT'', Fin (2 / 5)), (''TSLA'', Fin (1 / 5))]"
    unfolding f a by (rule conjunct1)
  ultimately show ?thesis using n by blast
qed

text \<open>
  Claim C2 as stated fails: the skipped entries are reported nowhere. The text with the two
  malformed entries \<^verbatim>\<open>AAPL40\<close> and \<^verbatim>\<open>GOOGL:x\<close> gives exactly what the text without them gives.
\<close>

theorem skipped_entries_leave_no_trace_counterexample:
  "alloc_dict ''MSFT:40,AAPL40,GOOGL:x,TSLA:20'' = alloc_dict ''MSFT:40,TSLA:20''"
  by code_simp

text \<open>
  Claim C9, as the code has it. Every weight in the parsed dictionary is the percentage of a
  well-formed entry of the text divided by 100, unchecked: it lies in \<open>[0, 1]\<close> exactly when
  that percentage lies in \<open>[0, 100]\<close>.
\<close>

theorem weight_is_percentage_over_100:
  assumes "(k, w) \<in> set (alloc_dict s)"
  shows "\<exists>item \<in> set (split_on CHR '','' s). \<exists>t p x.
           split_on CHR '':'' item = [t, p] \<and> py_float (strip p) = Some x
           \<and> k = upper (strip t) \<and> w = fdiv x (Fin 100)
           \<and> ((is_fin w \<and> 0 \<le> val w \<and> val w \<le> 1) \<longleftrightarrow> (is_fin x \<and> 0 \<le> val x \<and> val x \<le> 100))"
proof -
  from assms have "\<exists>item \<in> set (split_on CHR '','' s). parse_item item = Some (k, w)"
    using alloc_loop_origin [of k w "[]"] by (simp add: alloc_dict_def)
  then obtain item t p x where item: "item \<in> set (split_on CHR '','' s)"
    and sp: "split_on CHR '':'' item = [t, p]" and fl: "py_float (strip p) = Some x"
    and k: "k = upper (strip t)" and w: "w = fdiv x (Fin 100)"
    unfolding parse_item_Some by blast
  have "(is_fin w \<and> 0 \<le> val w \<and> val w \<le> 1) \<longleftrightarrow> (is_fin x \<and> 0 \<le> val x \<and> val x \<le> 100)"
    unfolding w by (cases x) (simp_all add: inf_of_def)
  with item sp fl k w show ?thesis by blast
qed

theorem weight_is_percentage_over_100_witness:
  "(''AAPL'', Fin (3 / 2)) \<in> set (alloc_dict ''aapl: 150'')
   \<and> (\<exists>item \<in> set (split_on CHR '','' ''aapl: 150''). \<exists>t p x.
           split_on CHR '':'' item = [t, p] \<and> py_float (strip p) = Some x
           \<and> ''AAPL'' = upper (strip t) \<and> Fin (3 / 2) = fdiv x (Fin 100)
           \<and> \<not> (is_fin x \<and> 0 \<le> val x \<and> val x \<le> 100))"
proof -
  have m: "(''AAPL'', Fin (3 / 2)) \<in> set (alloc_dict ''aapl: 150'')" by code_simp
  from weight_is_percentage_over_100 [OF m] m show ?thesis by simp
qed

text \<open>
  Claim C9 as stated fails: \<^verbatim>\<open>AAPL:150,MSFT:-10\<close> gives the weights 1.5 and -0.1.
\<close>

theorem weight_out_of_unit_interval_counterexample:
  "map_of (alloc_dict ''AAPL:150,MSFT:-10'') ''AAPL'' = Some (Fin (3 / 2)) \<and> (1::real) < 3 / 2
   \<and> map_of (alloc_dict ''AAPL:150,MSFT:-10'') ''MSFT'' = Some (Fin (- (1 / 10))) \<and> - (1 / 10) < (0::real)"
  by code_simp

text \<open>
  Claim C10. When two well-formed entries of the text have the same ticker after stripping
  and uppercasing, and no entry after the later one has that ticker, the dictionary holds
  exactly one entry for the ticker, and its weight is the later entry's percentage over 100.
\<close>

theorem later_entry_overwrites:
  assumes "i < j" and "j < length (split_on CHR '','' s)"
    and "split_on CHR '':'' (split_on CHR '','' s ! i) = [t1, p1]" and "py_float (strip p1) = Some x1"
    and "split_on CHR '':'' (split_on CHR '','' s ! j) = [t2, p2]" and "py_float (strip p2) = Some x2"
    and "upper (strip t1) = upper (strip t2)"
    and "\<forall>m. j < m \<and> m < length (split_on CHR '','' s) \<longrightarrow>
           (\<forall>u. parse_item (split_on CHR '','' s ! m) \<noteq> Some (upper (strip t2), u))"
  shows "map_of (alloc_dict s) (upper (strip t2)) = Some (fdiv x2 (Fin 100))
       \<and> length (filter (\<lambda>e. fst e = upper (strip t2)) (alloc_dict s)) = 1"
proof -
  let ?items = "split_on CHR '','' s" and ?k = "upper (strip t2)" and ?w = "fdiv x2 (Fin 100)"
  let ?xs = "take j ?items" and ?ys = "drop (Suc j) ?items"
  have items: "?items = ?xs @ (?items ! j) # ?ys"
    using assms(2) by (rule id_take_nth_drop)
  have pj: "parse_item (?items ! j) = Some (?k, ?w)"
    unfolding parse_item_Some using assms(5,6) by blast
  have later: "\<forall>item \<in> set ?ys. \<forall>u. parse_item item \<noteq> Some (?k, u)"
  proof
    fix item assume "item \<in> set ?ys"
    then obtain n where n: "n < length ?ys" "item = ?ys ! n"
      by (auto simp: in_set_conv_nth)
    then have "item = ?items ! (Suc j + n)" "j < Suc j + n" "Suc j + n < length ?items"
      by simp_all
    with assms(8) show "\<forall>u. parse_item item \<noteq> Some (?k, u)" by blast
  qed
  have "alloc_dict s = alloc_loop (AList.update ?k ?w (alloc_loop [] ?xs)) ?ys"
    unfolding alloc_dict_def by (subst items) (simp add: alloc_loop_append pj)
  then have "map_of (alloc_dict s) ?k = map_of (AList.update ?k ?w (alloc_loop [] ?xs)) ?k"
    using alloc_loop_other_key [OF later] by simp
  then have look: "map_of (alloc_dict s) ?k = Some ?w"
    by (simp add: update_conv')
  have "distinct (map fst (alloc_dict s))"
    unfolding alloc_dict_def by (rule alloc_loop_distinct) simp
  from single_entry [OF this look] look show ?thesis by simp
qed

theorem later_entry_overwrites_witness:
  "map_of (alloc_dict ''aapl:40,MSFT:10, AAPL :60'') ''AAPL'' = Some (Fin (3 / 5))
   \<and> length (filter (\<lambda>e. fst e = ''AAPL'') (alloc_dict ''aapl:40,MSFT:10, AAPL :60'')) = 1"
proof -
  let ?s = "''aapl:40,MSFT:10, AAPL :60''"
  have sp: "split_on CHR '','' ?s = [''aapl:40'', ''MSFT:10'', '' AAPL :60'']" by code_simp
  have a: "(0::nat) < 2" "2 < length (split_on CHR '','' ?s)" unfolding sp by simp_all
  have b: "split_on CHR '':'' (split_on CHR '','' ?s ! 0) = [''aapl'', ''40'']"
    "split_on CHR '':'' (split_on CHR '','' ?s ! 2) = ['' AAPL '', ''60'']"
    unfolding sp by code_simp+
  have c: "py_float (strip ''40'') = Some (Fin 40)" "py_float (strip ''60'') = Some (Fin 60)"
    by code_simp+
  have d: "upper (strip ''aapl'') = upper (strip '' AAPL '')" by code_simp
  have len: "length (split_on CHR '','' ?s) = 3" unfolding sp by simp
  have e: "\<forall>m. 2 < m \<and> m < length (split_on CHR '','' ?s) \<longrightarrow>
           (\<forall>u. parse_item (split_on CHR '','' ?s ! m) \<noteq> Some (upper (strip '' AAPL ''), u))"
    unfolding len by (intro allI impI) arith
  have k: "upper (strip '' AAPL '') = ''AAPL''" by code_simp
  have w: "fdiv (Fin 60) (Fin 100) = Fin (3 / 5)" by simp
  from later_entry_overwrites [OF a b(1) c(1) b(2) c(2) d e]
  show ?thesis unfolding k w .
qed

section \<open>Properties of the portfolio engine\<close>

subsection \<open>Metrics\<close>

lemma foldl_fadd_fin: "foldl fadd (Fin a) (map Fin xs) = Fin (a + sum_list xs)"
  by (induction xs arbitrary: a) (simp_all add: add.assoc)

lemma fin_list: "list_all is_fin xs \<Longrightarrow> map Fin (map val xs) = xs"
proof (induction xs)
  case Nil
  then show ?case by simp
next
  case (Cons x xs)
  then show ?case by (cases x) simp_all
qed

lemma dropna_values_fin: "list_all is_fin xs \<Longrightarrow> dropna_values xs = xs"
  unfolding dropna_values_def
  by (induction xs) auto


lemma series_mean_fin:
  assumes "list_all is_fin xs" "xs \<noteq> []"
  shows "series_mean xs = Fin (sum_list (map val xs) / real (length xs))"
proof -
  have eq: "map Fin (map val xs) = xs" using assms(1) by (rule fin_list)
  have "foldl fadd (Fin 0) xs = foldl fadd (Fin 0) (map Fin (map val xs))" unfolding eq ..
  then have "foldl fadd (Fin 0) xs = Fin (sum_list (map val xs))"
    unfolding foldl_fadd_fin by simp
  then show ?thesis
    using assms by (simp add: series_mean_def dropna_values_fin Let_def)
qed

lemma series_std_fin:
  assumes "list_all is_fin xs" "2 \<le> length xs"
  shows "series_std xs =
     Fin (sqrt ((\<Sum>x\<leftarrow>xs. (val x - sum_list (map val xs) / real (length xs))\<^sup>2)
                / (real (length xs) - 1)))"
  using assms
  by (simp add: series_std_def dropna_values_fin Let_def sample_std_def ssqdm_def mean_of_def comp_def)

text \<open>
  Claim C4. The Sharpe ratio of \<^verbatim>\<open>portfolio_performance\<close> is the mean of the weighted-return
  series divided by its standard deviation, except that it is exactly 0 when the deviation
  is exactly 0; the mean and the deviation are those of the weighted-return series, and on
  a series of at least two finite returns they are the arithmetic mean and the sample
  (denominator \<open>n - 1\<close>) standard deviation.
\<close>

theorem sharpe_zero_guard:
  "Sharpe_Ratio (snd (portfolio_performance mkt alloc)) =
     (if Volatility (snd (portfolio_performance mkt alloc)) = Fin 0 then Fin 0
      else fdiv (Average_Daily_Return (snd (portfolio_performance mkt alloc)))
                (Volatility (snd (portfolio_performance mkt alloc))))
   \<and> Average_Daily_Return (snd (portfolio_performance mkt alloc))
       = series_mean (weighted_return_series mkt alloc)
   \<and> Volatility (snd (portfolio_performance mkt alloc))
       = series_std (weighted_return_series mkt alloc)
   \<and> (list_all is_fin xs \<and> 2 \<le> length xs \<longrightarrow>
        series_mean xs = Fin (sum_list (map val xs) / real (length xs))
        \<and> series_std xs =
            Fin (sqrt ((\<Sum>x\<leftarrow>xs. (val x - sum_list (map val xs) / real (length xs))\<^sup>2)
                       / (real (length xs) - 1))))"
proof -
  have "list_all is_fin xs \<and> 2 \<le> length xs \<longrightarrow>
        series_mean xs = Fin (sum_list (map val xs) / real (length xs))
        \<and> series_std xs =
            Fin (sqrt ((\<Sum>x\<leftarrow>xs. (val x - sum_list (map val xs) / real (length xs))\<^sup>2)
                       / (real (length xs) - 1)))"
  proof (intro impI, elim conjE)
    assume fin: "list_all is_fin xs" and len: "2 \<le> length xs"
    from len have "xs \<noteq> []" by auto
    with fin len series_mean_fin [of xs] series_std_fin [of xs]
    show "series_mean xs = Fin (sum_list (map val xs) / real (length xs))
        \<and> series_std xs =
            Fin (sqrt ((\<Sum>x\<leftarrow>xs. (val x - sum_list (map val xs) / real (length xs))\<^sup>2)
                       / (real (length xs) - 1)))"
      by blast
  qed
  then show ?thesis
    by (simp add: portfolio_performance_def Let_def metrics_of_def)
qed


theorem sharpe_zero_guard_witness:
  "list_all is_fin [Fin 1, Fin 4, Fin 7] \<and> 2 \<le> length [Fin 1, Fin 4, Fin 7 :: fl]
   \<and> weighted_return_series [(''A'', [(1, Fin 1), (2, Fin 2), (3, Fin 10), (4, Fin 80)])] [(''A'', Fin 1)]
       = [Fin 1, Fin 4, Fin 7]
   \<and> series_mean [Fin 1, Fin 4, Fin 7] = Fin 4
   \<and> series_std [Fin 1, Fin 4, Fin 7] = Fin 3
   \<and> Sharpe_Ratio (snd (portfolio_performance
         [(''A'', [(1, Fin 1), (2, Fin 2), (3, Fin 10), (4, Fin 80)])] [(''A'', Fin 1)])) = Fin (4 / 3)
   \<and> weighted_return_series [(''A'', [(1, Fin 1), (2, Fin 2), (3, Fin 4), (4, Fin 8)])] [(''A'', Fin 1)]
       = [Fin 1, Fin 1, Fin 1]
   \<and> Volatility (snd (portfolio_performance
         [(''A'', [(1, Fin 1), (2, Fin 2), (3, Fin 4), (4, Fin 8)])] [(''A'', Fin 1)])) = Fin 0
   \<and> Sharpe_Ratio (snd (portfolio_performance
         [(''A'', [(1, Fin 1), (2, Fin 2), (3, Fin 4), (4, Fin 8)])] [(''A'', Fin 1)])) = Fin 0"
proof -
  let ?dl0 = "[(''A'', [(1::nat, Fin 1), (2, Fin 2), (3, Fin 4), (4, Fin 8)])]"
  let ?ys = "[Fin 1, Fin 1, Fin 1]"
  have w0: "weighted_return_series ?dl0 [(''A'', Fin 1)] = ?ys" by code_simp
  have fin0: "list_all is_fin ?ys \<and> 2 \<le> length ?ys" by simp
  note g0 = sharpe_zero_guard [of ?dl0 "[(''A'', Fin 1)]" ?ys]
  from g0 fin0 have "series_std ?ys =
      Fin (sqrt ((\<Sum>x\<leftarrow>?ys. (val x - sum_list (map val ?ys) / real (length ?ys))\<^sup>2)
                       / (real (length ?ys) - 1)))" by blast
  then have sd0: "series_std ?ys = Fin 0" by simp
  from g0 have v0: "Volatility (snd (portfolio_performance ?dl0 [(''A'', Fin 1)])) = Fin 0"
    unfolding w0 sd0 by blast
  from g0 have "Sharpe_Ratio (snd (portfolio_performance ?dl0 [(''A'', Fin 1)])) =
     (if Volatility (snd (portfolio_performance ?dl0 [(''A'', Fin 1)])) = Fin 0 then Fin 0
      else fdiv (Average_Daily_Return (snd (portfolio_performance ?dl0 [(''A'', Fin 1)])))
                (Volatility (snd (portfolio_performance ?dl0 [(''A'', Fin 1)]))))"
    by (rule conjunct1)
  then have s0: "Sharpe_Ratio (snd (portfolio_performance ?dl0 [(''A'', Fin 1)])) = Fin 0"
    unfolding v0 by simp
  let ?dl = "[(''A'', [(1::nat, Fin 1), (2, Fin 2), (3, Fin 10), (4, Fin 80)])]"
  let ?xs = "[Fin 1, Fin 4, Fin 7]"
  have w: "weighted_return_series ?dl [(''A'', Fin 1)] = ?xs" by code_simp
  have fin: "list_all is_fin ?xs \<and> 2 \<le> length ?xs" by simp
  note g = sharpe_zero_guard [of ?dl "[(''A'', Fin 1)]" ?xs]
  have sq: "sqrt 9 = 3" by (rule real_sqrt_unique) simp_all
  from g fin have m: "series_mean ?xs = Fin 4" by simp
  from g fin have "series_std ?xs =
      Fin (sqrt ((\<Sum>x\<leftarrow>?xs. (val x - sum_list (map val ?xs) / real (length ?xs))\<^sup>2)
                       / (real (length ?xs) - 1)))" by blast
  then have sd: "series_std ?xs = Fin 3" by (simp add: sq)
  from g have "Sharpe_Ratio (snd (portfolio_performance ?dl [(''A'', Fin 1)])) =
     (if series_std (weighted_return_series ?dl [(''A'', Fin 1)]) = Fin 0 then Fin 0
      else fdiv (series_mean (weighted_return_series ?dl [(''A'', Fin 1)]))
                (series_std (weighted_return_series ?dl [(''A'', Fin 1)])))"
    by presburger
  then have "Sharpe_Ratio (snd (portfolio_performance ?dl [(''A'', Fin 1)])) = Fin (4 / 3)"
    unfolding w m sd by simp
  with fin w m sd w0 v0 s0 show ?thesis by blast
qed

subsection \<open>Weighted returns\<close>





subsection \<open>Alignment, forward fill, dropped rows\<close>

lemma length_reindex [simp]: "length (reindex s idx) = length idx"
  by (simp add: reindex_def)

lemma length_ffill_from [simp]: "length (ffill_from s xs) = length xs"
  by (induction xs arbitrary: s) simp_all

lemma length_ffill [simp]: "length (ffill xs) = length xs"
  by (simp add: ffill_def)

lemma length_pct_change [simp]: "length (pct_change xs) = length xs"
proof (cases "ffill xs")
  case Nil
  then have "length xs = 0" by (metis length_ffill list.size(3))
  with Nil show ?thesis by (simp add: pct_change_def)
next
  case (Cons x rest)
  then have "length xs = Suc (length rest)" by (metis length_ffill length_Cons)
  with Cons show ?thesis by (simp add: pct_change_def)
qed

lemma ffill_from_nth:
  "i < length xs \<Longrightarrow>
     ffill_from s xs ! i =
       (if xs ! i \<noteq> NaN then xs ! i else if i = 0 then s else ffill_from s xs ! (i - 1))"
proof (induction xs arbitrary: s i)
  case Nil
  then show ?case by simp
next
  case (Cons x xs)
  show ?case
  proof (cases i)
    case 0
    then show ?thesis by simp
  next
    case (Suc j)
    with Cons.prems have j: "j < length xs" by simp
    show ?thesis
    proof (cases "x = NaN")
      case True
      with Cons.IH [OF j, of s] Suc show ?thesis by (cases j) simp_all
    next
      case False
      with Cons.IH [OF j, of x] Suc show ?thesis by (cases j) simp_all
    qed
  qed
qed

lemma ffill_nth:
  "i < length xs \<Longrightarrow>
     ffill xs ! i = (if xs ! i \<noteq> NaN then xs ! i else if i = 0 then NaN else ffill xs ! (i - 1))"
  unfolding ffill_def by (rule ffill_from_nth)

lemma ffill_leading_nan:
  "i < length xs \<Longrightarrow> \<forall>j \<le> i. xs ! j = NaN \<Longrightarrow> ffill xs ! i = NaN"
proof (induction i)
  case 0
  then show ?case by (simp add: ffill_nth)
next
  case (Suc i)
  then have "ffill xs ! i = NaN" by simp
  moreover from Suc.prems have "xs ! Suc i = NaN" by blast
  ultimately show ?case using Suc.prems(1) by (simp add: ffill_nth)
qed

lemma ffill_from_idem: "ffill_from s (ffill_from s xs) = ffill_from s xs"
  by (induction xs arbitrary: s) simp_all

lemma ffill_idem: "ffill (ffill xs) = ffill xs"
  unfolding ffill_def by (rule ffill_from_idem)

lemma pct_change_nth:
  assumes "i < length xs"
  shows "pct_change xs ! i =
     (if i = 0 then NaN else fsub (fdiv (ffill xs ! i) (ffill xs ! (i - 1))) (Fin 1))"
proof (cases "ffill xs")
  case Nil
  then have "length xs = 0" by (metis length_ffill list.size(3))
  with assms show ?thesis by simp
next
  case (Cons x rest)
  then have len: "length xs = Suc (length rest)" by (metis length_ffill length_Cons)
  show ?thesis
  proof (cases i)
    case 0
    then show ?thesis by (simp add: pct_change_def Cons)
  next
    case (Suc j)
    with assms len have "j < length rest" by simp
    then show ?thesis using Suc by (simp add: pct_change_def Cons)
  qed
qed

lemma pct_change_nan:
  assumes "i < length xs" "ffill xs ! i = NaN"
  shows "pct_change xs ! i = NaN"
  using assms by (simp add: pct_change_nth fsub_def)

lemma pct_change_after_nan:
  assumes "i < length xs" "0 < i" "ffill xs ! (i - 1) = NaN"
  shows "pct_change xs ! i = NaN"
proof (cases "ffill xs ! i")
  case (Fin a)
  with assms show ?thesis by (simp add: pct_change_nth fsub_def)
qed (use assms in \<open>simp_all add: pct_change_nth fsub_def\<close>)

lemma set_column_nonempty:
  assumes "index df \<noteq> []"
  shows "set_column df t s = df\<lparr> columns := AList.update t (reindex s (index df)) (columns df) \<rparr>"
  using assms by (simp add: set_column_def ensure_valid_index_def Let_def)

lemma prices_loop_inv:
  assumes "index df \<noteq> []"
  shows "index (prices_loop mkt df ts) = index df
       \<and> map_of (columns (prices_loop mkt df ts)) t =
           (if t \<in> set ts then Some (reindex (download mkt t) (index df))
            else map_of (columns df) t)"
  using assms
proof (induction ts arbitrary: df)
  case Nil
  then show ?case by simp
next
  case (Cons u ts)
  let ?df' = "set_column df u (download mkt u)"
  have df': "?df' = df\<lparr> columns := AList.update u (reindex (download mkt u) (index df)) (columns df) \<rparr>"
    using Cons.prems by (rule set_column_nonempty)
  then have idx: "index ?df' = index df" by simp
  with Cons.prems have ne: "index ?df' \<noteq> []" by simp
  have cols: "map_of (columns ?df') t =
      (if t = u then Some (reindex (download mkt u) (index df)) else map_of (columns df) t)"
    unfolding df' by (simp add: update_conv')
  from Cons.IH [OF ne] show ?case
    unfolding idx cols by auto
qed

lemma build_prices_first:
  assumes "download mkt t0 \<noteq> []"
  shows "index (build_prices mkt (t0 # ts)) = map fst (download mkt t0)"
    and "t \<in> set (t0 # ts) \<Longrightarrow>
         map_of (columns (build_prices mkt (t0 # ts))) t
           = Some (reindex (download mkt t) (map fst (download mkt t0)))"
proof -
  let ?I = "map fst (download mkt t0)"
  let ?df = "set_column empty_frame t0 (download mkt t0)"
  have df: "?df = \<lparr> index = ?I, columns = [(t0, reindex (download mkt t0) ?I)] \<rparr>"
    using assms by (simp add: set_column_def ensure_valid_index_def empty_frame_def Let_def)
  then have ne: "index ?df \<noteq> []" using assms by simp
  have bp: "build_prices mkt (t0 # ts) = prices_loop mkt ?df ts"
    by (simp add: build_prices_def)
  note inv = prices_loop_inv [OF ne, of mkt ts]
  show "index (build_prices mkt (t0 # ts)) = ?I"
    unfolding bp using inv [of t0] by (simp add: df)
  show "map_of (columns (build_prices mkt (t0 # ts))) t = Some (reindex (download mkt t) ?I)"
    if "t \<in> set (t0 # ts)"
    unfolding bp using inv [of t] that by (auto simp: df)
qed

lemma map_of_map_columns:
  "map_of (columns (map_columns f df)) t = map_option f (map_of (columns df) t)"
  by (simp add: map_columns_def map_of_map)

lemma index_map_columns [simp]: "index (map_columns f df) = index df"
  by (simp add: map_columns_def)

lemma row_at_member:
  assumes "map_of (columns df) t = Some c"
  shows "c ! i \<in> set (row_at df i)"
proof -
  from assms have "(t, c) \<in> set (columns df)" by (rule map_of_SomeD)
  then show ?thesis unfolding row_at_def by force
qed

lemma kept_rows_no_nan:
  assumes "map_of (columns df) t = Some c" "c ! i = NaN"
  shows "i \<notin> set (kept_rows df)"
  using row_at_member [OF assms(1), of i] assms(2) by (simp add: kept_rows_def)

text \<open>
  Claim C3, as the code has it. When the first ticker of the weight map has a non-empty
  series, the price table has the dates of that first series as its index, and the column
  of every ticker is its series conformed to those dates (dates that only other
  tickers have are left out: this is not the union). On that index a gap takes the
  security's most recent earlier value and nothing is filled backwards: rows before the
  security's first value stay NaN. The first row is never kept, no row in which a
  security is still NaN is kept, nor the row after such a row, and the dates of the returns
  are those of the kept rows.
\<close>

theorem alignment_on_first_constituent:
  assumes "download mkt t0 \<noteq> []" and "t \<in> set (t0 # ts)"
  shows "index (build_prices mkt (t0 # ts)) = map fst (download mkt t0)
       \<and> map_of (columns (build_prices mkt (t0 # ts))) t
           = Some (reindex (download mkt t) (map fst (download mkt t0)))
       \<and> map_of (columns (filled_prices mkt (t0 # ts))) t
           = Some (ffill (reindex (download mkt t) (map fst (download mkt t0))))
       \<and> (\<forall>i < length (download mkt t0).
            ffill (reindex (download mkt t) (map fst (download mkt t0))) ! i =
              (if reindex (download mkt t) (map fst (download mkt t0)) ! i \<noteq> NaN
               then reindex (download mkt t) (map fst (download mkt t0)) ! i
               else if i = 0 then NaN
               else ffill (reindex (download mkt t) (map fst (download mkt t0))) ! (i - 1)))
       \<and> (\<forall>i < length (download mkt t0).
            (\<forall>j \<le> i. reindex (download mkt t) (map fst (download mkt t0)) ! j = NaN)
            \<longrightarrow> ffill (reindex (download mkt t) (map fst (download mkt t0))) ! i = NaN)
       \<and> 0 \<notin> set (kept_rows (pct_changes mkt (t0 # ts)))
       \<and> (\<forall>i < length (download mkt t0).
            ffill (reindex (download mkt t) (map fst (download mkt t0))) ! i = NaN
            \<longrightarrow> i \<notin> set (kept_rows (pct_changes mkt (t0 # ts))))
       \<and> (\<forall>i < length (download mkt t0).
            0 < i \<and> ffill (reindex (download mkt t) (map fst (download mkt t0))) ! (i - 1) = NaN
            \<longrightarrow> i \<notin> set (kept_rows (pct_changes mkt (t0 # ts))))
       \<and> index (returns_table mkt (t0 # ts))
           = map (\<lambda>i. map fst (download mkt t0) ! i) (kept_rows (pct_changes mkt (t0 # ts)))"
proof -
  let ?I = "map fst (download mkt t0)"
  let ?xs = "reindex (download mkt t) ?I"
  have idx: "index (build_prices mkt (t0 # ts)) = ?I"
    using assms(1) by (rule build_prices_first(1))
  have col: "map_of (columns (build_prices mkt (t0 # ts))) t = Some ?xs"
    using assms by (rule build_prices_first(2))
  have fcol: "map_of (columns (filled_prices mkt (t0 # ts))) t = Some (ffill ?xs)"
    by (simp add: filled_prices_def map_of_map_columns col)
  have pcol: "map_of (columns (pct_changes mkt (t0 # ts))) t = Some (pct_change (ffill ?xs))"
    by (simp add: pct_changes_def map_of_map_columns fcol)
  have fill: "\<forall>i < length (download mkt t0).
      ffill ?xs ! i = (if ?xs ! i \<noteq> NaN then ?xs ! i else if i = 0 then NaN else ffill ?xs ! (i - 1))"
    using ffill_nth [of _ ?xs] by simp
  have lead: "\<forall>i < length (download mkt t0).
      (\<forall>j \<le> i. ?xs ! j = NaN) \<longrightarrow> ffill ?xs ! i = NaN"
    using ffill_leading_nan [of _ ?xs] by simp
  have pos: "0 < length (ffill ?xs)" using assms(1) by simp
  have "pct_change (ffill ?xs) ! 0 = NaN"
    using pct_change_nth [OF pos] by simp
  with pcol have first: "0 \<notin> set (kept_rows (pct_changes mkt (t0 # ts)))"
    by (rule kept_rows_no_nan)
  have nan: "\<forall>i < length (download mkt t0).
      ffill ?xs ! i = NaN \<longrightarrow> i \<notin> set (kept_rows (pct_changes mkt (t0 # ts)))"
  proof (intro allI impI)
    fix i assume i: "i < length (download mkt t0)" and n: "ffill ?xs ! i = NaN"
    have "pct_change (ffill ?xs) ! i = NaN"
      by (rule pct_change_nan) (use i n in \<open>simp_all add: ffill_idem\<close>)
    with pcol show "i \<notin> set (kept_rows (pct_changes mkt (t0 # ts)))"
      by (rule kept_rows_no_nan)
  qed
  have after: "\<forall>i < length (download mkt t0).
      0 < i \<and> ffill ?xs ! (i - 1) = NaN \<longrightarrow> i \<notin> set (kept_rows (pct_changes mkt (t0 # ts)))"
  proof (intro allI impI)
    fix i assume i: "i < length (download mkt t0)" and n: "0 < i \<and> ffill ?xs ! (i - 1) = NaN"
    have "pct_change (ffill ?xs) ! i = NaN"
      by (rule pct_change_after_nan) (use i n in \<open>simp_all add: ffill_idem\<close>)
    with pcol show "i \<notin> set (kept_rows (pct_changes mkt (t0 # ts)))"
      by (rule kept_rows_no_nan)
  qed
  have ridx: "index (returns_table mkt (t0 # ts))
      = map (\<lambda>i. ?I ! i) (kept_rows (pct_changes mkt (t0 # ts)))"
    by (simp add: returns_table_def dropna_def pct_changes_def filled_prices_def idx)
  from idx col fcol fill lead first nan after ridx show ?thesis by blast
qed

theorem alignment_on_first_constituent_witness:
  "download [(''A'', [(1, Fin 10), (2, Fin 11), (4, Fin 12)]),
             (''B'', [(1, Fin 20), (2, Fin 19), (3, Fin 21), (4, Fin 22)])] ''B'' \<noteq> []
   \<and> ''A'' \<in> set [''B'', ''A'']
   \<and> index (build_prices [(''A'', [(1, Fin 10), (2, Fin 11), (4, Fin 12)]),
             (''B'', [(1, Fin 20), (2, Fin 19), (3, Fin 21), (4, Fin 22)])] [''B'', ''A''])
       = [1, 2, 3, 4]
   \<and> map_of (columns (build_prices [(''A'', [(1, Fin 10), (2, Fin 11), (4, Fin 12)]),
             (''B'', [(1, Fin 20), (2, Fin 19), (3, Fin 21), (4, Fin 22)])] [''B'', ''A''])) ''A''
       = Some [Fin 10, Fin 11, NaN, Fin 12]
   \<and> map_of (columns (filled_prices [(''A'', [(1, Fin 10), (2, Fin 11), (4, Fin 12)]),
             (''B'', [(1, Fin 20), (2, Fin 19), (3, Fin 21), (4, Fin 22)])] [''B'', ''A''])) ''A''
       = Some [Fin 10, Fin 11, Fin 11, Fin 12]
   \<and> index (returns_table [(''A'', [(1, Fin 10), (2, Fin 11), (4, Fin 12)]),
             (''B'', [(1, Fin 20), (2, Fin 19), (3, Fin 21), (4, Fin 22)])] [''B'', ''A''])
       = [2, 3, 4]"
proof -
  let ?m = "[(''A'', [(1, Fin 10), (2, Fin 11), (4, Fin 12)]),
             (''B'', [(1, Fin 20), (2, Fin 19), (3, Fin 21), (4, Fin 22)])]"
  have h1: "download ?m ''B'' \<noteq> []" by code_simp
  have h2: "''A'' \<in> set [''B'', ''A'']" by simp
  have i: "map fst (download ?m ''B'') = [1, 2, 3, 4]" by code_simp
  have r: "reindex (download ?m ''A'') [1, 2, 3, 4] = [Fin 10, Fin 11, NaN, Fin 12]" by code_simp
  have f: "ffill [Fin 10, Fin 11, NaN, Fin 12] = [Fin 10, Fin 11, Fin 11, Fin 12]" by code_simp
  have k: "kept_rows (pct_changes ?m [''B'', ''A'']) = [1, 2, 3]" by code_simp
  note a = alignment_on_first_constituent [OF h1 h2, unfolded i r f k]
  from a have "index (build_prices ?m [''B'', ''A'']) = [1, 2, 3, 4]" by (rule conjunct1)
  moreover from a have "map_of (columns (build_prices ?m [''B'', ''A''])) ''A''
      = Some [Fin 10, Fin 11, NaN, Fin 12]" by blast
  moreover from a have "map_of (columns (filled_prices ?m [''B'', ''A''])) ''A''
      = Some [Fin 10, Fin 11, Fin 11, Fin 12]" by blast
  moreover from a have "index (returns_table ?m [''B'', ''A'']) = map (\<lambda>i. [1, 2, 3, 4] ! i) [1, 2, 3]"
    by blast
  then have "index (returns_table ?m [''B'', ''A'']) = [2, 3, 4]" by simp
  ultimately show ?thesis using h1 h2 by blast
qed

text \<open>
  Claim C3 as stated fails: with A on the dates 1, 2, 4 first in the weight map and B on
  1, 2, 3, 4 after it, the table has the rows 1, 2, 4 only, although date 3 is in the union
  of the date indices; there is no row for date 3 and no value of A on it.
\<close>

theorem alignment_not_on_union_counterexample:
  "index (build_prices [(''A'', [(1, Fin 10), (2, Fin 11), (4, Fin 12)]),
             (''B'', [(1, Fin 20), (2, Fin 19), (3, Fin 21), (4, Fin 22)])] [''A'', ''B''])
     = [1, 2, 4]
   \<and> 3 \<in> set (map fst (download [(''A'', [(1, Fin 10), (2, Fin 11), (4, Fin 12)]),
             (''B'', [(1, Fin 20), (2, Fin 19), (3, Fin 21), (4, Fin 22)])] ''B''))
   \<and> columns (filled_prices [(''A'', [(1, Fin 10), (2, Fin 11), (4, Fin 12)]),
             (''B'', [(1, Fin 20), (2, Fin 19), (3, Fin 21), (4, Fin 22)])] [''A'', ''B''])
     = [(''A'', [Fin 10, Fin 11, Fin 12]), (''B'', [Fin 20, Fin 19, Fin 22])]"
  by code_simp

end
